theory Spec2Isabelle
  imports Complex_Main
begin

section \<open>JavaScript numbers\<close>

text \<open>
  A number is a finite value or one of the three special values of IEEE-754 arithmetic.
  A finite result is kept exact (rounding is not represented, and there is one zero); a
  result whose magnitude reaches \<open>2 ^ 1024\<close> overflows to an infinity, and the
  special values propagate as in the language.
\<close>

datatype jsnum = Fin real | PInf | NInf | NaN

definition overflowBound :: real where
  "overflowBound = 2 ^ 1024"

definition ovf :: "real \<Rightarrow> jsnum" where
  "ovf x = (if overflowBound \<le> x then PInf else if x \<le> - overflowBound then NInf else Fin x)"

fun jneg :: "jsnum \<Rightarrow> jsnum" where
  "jneg (Fin x) = Fin (- x)"
| "jneg PInf = NInf"
| "jneg NInf = PInf"
| "jneg NaN = NaN"

fun jadd :: "jsnum \<Rightarrow> jsnum \<Rightarrow> jsnum" where
  "jadd (Fin x) (Fin y) = ovf (x + y)"
| "jadd NaN b = NaN"
| "jadd a NaN = NaN"
| "jadd PInf NInf = NaN"
| "jadd NInf PInf = NaN"
| "jadd PInf b = PInf"
| "jadd a PInf = PInf"
| "jadd NInf b = NInf"
| "jadd a NInf = NInf"

definition jsub :: "jsnum \<Rightarrow> jsnum \<Rightarrow> jsnum" where
  "jsub a b = jadd a (jneg b)"

definition infTimes :: "jsnum \<Rightarrow> real \<Rightarrow> jsnum" where
  \<comment> \<open>an infinity times a finite value\<close>
  "infTimes i y = (if y = 0 then NaN else if 0 < y then i else jneg i)"

fun jmul :: "jsnum \<Rightarrow> jsnum \<Rightarrow> jsnum" where
  "jmul (Fin x) (Fin y) = ovf (x * y)"
| "jmul NaN b = NaN"
| "jmul a NaN = NaN"
| "jmul (Fin x) b = infTimes b x"
| "jmul a (Fin y) = infTimes a y"
| "jmul PInf b = b"
| "jmul NInf b = jneg b"

fun jdiv :: "jsnum \<Rightarrow> jsnum \<Rightarrow> jsnum" where
  "jdiv (Fin x) (Fin y) =
     (if y = 0 then (if x = 0 then NaN else if 0 < x then PInf else NInf) else ovf (x / y))"
| "jdiv NaN b = NaN"
| "jdiv a NaN = NaN"
| "jdiv (Fin x) b = Fin 0"
| "jdiv a (Fin y) = (if 0 \<le> y then a else jneg a)"
| "jdiv a b = NaN"

fun jsqrt :: "jsnum \<Rightarrow> jsnum" where
  "jsqrt (Fin x) = (if x < 0 then NaN else Fin (sqrt x))"
| "jsqrt PInf = PInf"
| "jsqrt NInf = NaN"
| "jsqrt NaN = NaN"

fun jge :: "jsnum \<Rightarrow> jsnum \<Rightarrow> bool" where
  \<comment> \<open>the comparison \<^verbatim>\<open>a >= b\<close>: false as soon as one side is NaN\<close>
  "jge (Fin x) (Fin y) = (y \<le> x)"
| "jge NaN b = False"
| "jge a NaN = False"
| "jge PInf b = True"
| "jge a NInf = True"
| "jge a b = False"

fun isPositive :: "jsnum \<Rightarrow> bool" where
  \<comment> \<open>how a sort reads a comparator's result: \<^verbatim>\<open>v > 0\<close>, NaN counting as 0\<close>
  "isPositive (Fin x) = (0 < x)"
| "isPositive PInf = True"
| "isPositive NInf = False"
| "isPositive NaN = False"

section \<open>JavaScript strings\<close>

text \<open>
  Text is a list of 8-bit characters (code units 0..255). The white-space class is the
  one shared by \<^verbatim>\<open>String.prototype.trim\<close> and the regular-expression class
  \<^verbatim>\<open>\s\<close>, cut down to that range: TAB, LF, VT, FF, CR, SPACE and NBSP.
  Lower-casing maps A..Z and the upper-case letters of Latin-1 onto their lower-case
  forms and leaves every other character alone.
\<close>

definition isWhiteSpace :: "char \<Rightarrow> bool" where
  "isWhiteSpace c = (of_char c \<in> {9, 10, 11, 12, 13, 32, 160 :: nat})"

definition trim :: "string \<Rightarrow> string" where
  "trim s = rev (dropWhile isWhiteSpace (rev (dropWhile isWhiteSpace s)))"

definition substring :: "string \<Rightarrow> nat \<Rightarrow> nat \<Rightarrow> string" where
  \<comment> \<open>both indices are clamped to the length and swapped when out of order\<close>
  "substring s i j =
     (let a = min i (length s); b = min j (length s)
      in take (max a b - min a b) (drop (min a b) s))"

definition lowerChar :: "char \<Rightarrow> char" where
  "lowerChar c =
     (let n = (of_char c :: nat)
      in if (65 \<le> n \<and> n \<le> 90) \<or> (192 \<le> n \<and> n \<le> 222 \<and> n \<noteq> 215)
         then char_of (n + 32) else c)"

definition toLowerCase :: "string \<Rightarrow> string" where
  "toLowerCase s = map lowerChar s"

definition startsWith :: "string \<Rightarrow> string \<Rightarrow> bool" where
  "startsWith s p = (take (length p) s = p)"

definition endsWith :: "string \<Rightarrow> string \<Rightarrow> bool" where
  "endsWith s p = (length p \<le> length s \<and> drop (length s - length p) s = p)"

fun includesStr :: "string \<Rightarrow> string \<Rightarrow> bool" where
  "includesStr [] t = (t = [])"
| "includesStr (c # cs) t = (startsWith (c # cs) t \<or> includesStr cs t)"

fun indexOf :: "string \<Rightarrow> string \<Rightarrow> nat option" where
  \<comment> \<open>the first position of \<open>t\<close> in \<open>s\<close>; \<open>None\<close> stands for \<open>-1\<close>\<close>
  "indexOf [] t = (if t = [] then Some 0 else None)"
| "indexOf (c # cs) t =
     (if startsWith (c # cs) t then Some 0 else map_option Suc (indexOf cs t))"

definition replaceAllChar :: "char \<Rightarrow> string \<Rightarrow> string \<Rightarrow> string" where
  \<comment> \<open>every occurrence of one character replaced by a string\<close>
  "replaceAllChar c r s = concat (map (\<lambda>d. if d = c then r else [d]) s)"

text \<open>
  \<^verbatim>\<open>split\<close> on a regular expression that never matches the empty string: \<open>m s\<close> is
  the length of the match anchored at the head of \<open>s\<close>, or 0 when there is none.
\<close>

function splitBy :: "(string \<Rightarrow> nat) \<Rightarrow> string \<Rightarrow> string \<Rightarrow> string list" where
  "splitBy m cur [] = [cur]"
| "splitBy m cur (c # cs) =
     (if 0 < m (c # cs) then cur # splitBy m [] (drop (m (c # cs)) (c # cs))
      else splitBy m (cur @ [c]) cs)"
  by pat_completeness auto
termination
  by (relation "measure (\<lambda>(m, cur, s). length s)") auto

definition split :: "(string \<Rightarrow> nat) \<Rightarrow> string \<Rightarrow> string list" where
  "split m s = splitBy m [] s"

definition whiteSpaceRun :: "string \<Rightarrow> nat" where
  \<comment> \<open>the pattern \<^verbatim>\<open>\s+\<close>\<close>
  "whiteSpaceRun s = length (takeWhile isWhiteSpace s)"

definition backslashThenS :: "string \<Rightarrow> nat" where
  \<comment> \<open>the pattern \<^verbatim>\<open>\\s+\<close>: a backslash followed by one or more letters s\<close>
  "backslashThenS s =
     (case s of
        [] \<Rightarrow> 0
      | c # cs \<Rightarrow>
          (if c = CHR 0x5C \<and> takeWhile (\<lambda>d. d = CHR ''s'') cs \<noteq> []
           then Suc (length (takeWhile (\<lambda>d. d = CHR ''s'') cs)) else 0))"

fun digitsOf :: "nat \<Rightarrow> string" where
  "digitsOf n =
     (if n < 10 then [char_of (48 + n)] else digitsOf (n div 10) @ [char_of (48 + n mod 10)])"

declare digitsOf.simps [simp del]

section \<open>Chunker (the splitting loop of processFile)\<close>

definition CHUNK_SIZE :: nat where
  "CHUNK_SIZE = 500"

definition CHUNK_OVERLAP :: nat where
  "CHUNK_OVERLAP = 100"

function chunkLoop :: "string \<Rightarrow> nat \<Rightarrow> string list \<Rightarrow> string list" where
  "chunkLoop text i chunks =
     (if i < length text then
        (let endPos = min (i + CHUNK_SIZE) (length text);
             chunk = trim (substring text i endPos);
             chunks' = (if length chunk > 50 then chunks @ [chunk] else chunks)
         in if endPos \<ge> length text then chunks'
            else chunkLoop text (i + (CHUNK_SIZE - CHUNK_OVERLAP)) chunks')
      else chunks)"
  by pat_completeness auto
termination
  by (relation "measure (\<lambda>(text, i, chunks). length text - i)")
     (auto simp: CHUNK_SIZE_def CHUNK_OVERLAP_def)

declare chunkLoop.simps [simp del]

definition splitChunks :: "string \<Rightarrow> string list" where
  \<comment> \<open>processFile returns early, with no chunk, on empty or blank text\<close>
  "splitChunks text =
     (if text = [] \<or> length (trim text) = 0 then [] else chunkLoop text 0 [])"

text \<open>
  The chunker as the specification words it: windows of 500 characters starting every
  400 characters, the last one being the first that reaches the end of the text; each
  window is trimmed and kept when more than 50 characters remain.
\<close>

definition windowCount :: "nat \<Rightarrow> nat" where
  "windowCount n = Suc ((n - 500 + 399) div 400)"

definition window :: "string \<Rightarrow> nat \<Rightarrow> string" where
  "window text k = take 500 (drop (400 * k) text)"

definition chunkSpec :: "string \<Rightarrow> string list" where
  "chunkSpec text =
     filter (\<lambda>c. 50 < length c) (map (\<lambda>k. trim (window text k)) [0..<windowCount (length text)])"

section \<open>RetrievalEngine (the search code of both servers)\<close>

text \<open>
  A record of the index file: \<open>chunkText\<close> is its field \<^verbatim>\<open>text\<close>; a field
  that may be absent is an option. The scored copy made by the search functions
  (\<^verbatim>\<open>{...item, chunkId, score}\<close>) extends it.
\<close>

record chunkRecord =
  filePath :: string
  chunkIndex :: nat
  chunkText :: "string option"
  embedding :: "real list option"

record scoredChunk = chunkRecord +
  chunkId :: string
  score :: jsnum

definition cosineStep :: "real \<times> real \<Rightarrow> jsnum \<times> jsnum \<times> jsnum \<Rightarrow> jsnum \<times> jsnum \<times> jsnum" where
  \<comment> \<open>one round of the loop, on \<^verbatim>\<open>a[i]\<close> and \<^verbatim>\<open>b[i]\<close>\<close>
  "cosineStep ab acc =
     (case (ab, acc) of
        ((x, y), (dot, magA, magB)) \<Rightarrow>
          (jadd dot (jmul (Fin x) (Fin y)),
           jadd magA (jmul (Fin x) (Fin x)),
           jadd magB (jmul (Fin y) (Fin y))))"

definition cosineSimilarity :: "real list option \<Rightarrow> real list option \<Rightarrow> jsnum" where
  "cosineSimilarity a b =
     (case (a, b) of
        (Some va, Some vb) \<Rightarrow>
          (if length va \<noteq> length vb then Fin 0
           else
             (case fold cosineStep (zip va vb) (Fin 0, Fin 0, Fin 0) of
                (dot, magA, magB) \<Rightarrow>
                  (let mag = jmul (jsqrt magA) (jsqrt magB)
                   in if mag = Fin 0 then Fin 0 else jdiv dot mag)))
      | _ \<Rightarrow> Fin 0)"

definition countMatches :: "string \<Rightarrow> string list \<Rightarrow> nat" where
  \<comment> \<open>the loop \<^verbatim>\<open>for (const term of terms) if (lowerText.includes(term)) matches++\<close>\<close>
  "countMatches lowerText terms =
     fold (\<lambda>term matches. if includesStr lowerText term then matches + 1 else matches) terms 0"

definition keywordScoreWith :: "(string \<Rightarrow> nat) \<Rightarrow> string \<Rightarrow> string \<Rightarrow> jsnum" where
  \<comment> \<open>the body both copies of keywordScore share; \<open>sep\<close> is the pattern given to split\<close>
  "keywordScoreWith sep txt qry =
     (if txt = [] \<or> qry = [] then Fin 0
      else
        (let lowerText = toLowerCase txt;
             terms = filter (\<lambda>t. 0 < length t) (split sep (toLowerCase qry))
         in if length terms = 0 then Fin 0
            else Fin (real (countMatches lowerText terms) / real (length terms))))"

definition keywordScore :: "string \<Rightarrow> string \<Rightarrow> jsnum" where
  \<comment> \<open>rag-backend/src/server.mjs: \<^verbatim>\<open>split(/\s+/)\<close>\<close>
  "keywordScore = keywordScoreWith whiteSpaceRun"

definition keywordScore_indexer :: "string \<Rightarrow> string \<Rightarrow> jsnum" where
  \<comment> \<open>the indexer backend's server (unnamed/part_004): \<^verbatim>\<open>split(/\\s+/)\<close>\<close>
  "keywordScore_indexer = keywordScoreWith backslashThenS"

definition chunkIdOf :: "chunkRecord \<Rightarrow> string" where
  "chunkIdOf item = ''chunk_'' @ filePath item @ ''_'' @ digitsOf (chunkIndex item)"

definition scored :: "chunkRecord \<Rightarrow> jsnum \<Rightarrow> scoredChunk" where
  "scored item s =
     \<lparr>filePath = filePath item, chunkIndex = chunkIndex item, chunkText = chunkText item,
      embedding = embedding item, chunkId = chunkIdOf item, score = s\<rparr>"

text \<open>
  \<^verbatim>\<open>Array.prototype.sort\<close> is stable: with a comparator that orders the elements
  consistently, it returns the list a stable insertion sort returns. \<open>cmp x y\<close> positive
  puts \<open>y\<close> first.
\<close>

fun insertSorted :: "('a \<Rightarrow> 'a \<Rightarrow> jsnum) \<Rightarrow> 'a \<Rightarrow> 'a list \<Rightarrow> 'a list" where
  "insertSorted cmp x [] = [x]"
| "insertSorted cmp x (y # ys) =
     (if isPositive (cmp x y) then y # insertSorted cmp x ys else x # y # ys)"

definition jsSort :: "('a \<Rightarrow> 'a \<Rightarrow> jsnum) \<Rightarrow> 'a list \<Rightarrow> 'a list" where
  "jsSort cmp xs = foldr (insertSorted cmp) xs []"

definition byScoreDesc :: "scoredChunk \<Rightarrow> scoredChunk \<Rightarrow> jsnum" where
  \<comment> \<open>\<^verbatim>\<open>(a, b) => b.score - a.score\<close>\<close>
  "byScoreDesc a b = jsub (score b) (score a)"

definition semanticSearch ::
  "chunkRecord list option \<Rightarrow> real list option \<Rightarrow> nat \<Rightarrow> real \<Rightarrow> scoredChunk list" where
  "semanticSearch indexData queryEmbed k minScore =
     (case (indexData, queryEmbed) of
        (Some embeddings, Some q) \<Rightarrow>
          take k (jsSort byScoreDesc
            (filter (\<lambda>x. jge (score x) (Fin minScore))
               (map (\<lambda>item. scored item (cosineSimilarity (Some q) (embedding item))) embeddings)))
      | _ \<Rightarrow> [])"

definition keywordSearch ::
  "(string \<Rightarrow> string \<Rightarrow> jsnum) \<Rightarrow> chunkRecord list option \<Rightarrow> string \<Rightarrow> nat \<Rightarrow> real
     \<Rightarrow> scoredChunk list" where
  "keywordSearch kw indexData qry k minScore =
     (case indexData of
        Some embeddings \<Rightarrow>
          take k (jsSort byScoreDesc
            (filter (\<lambda>x. jge (score x) (Fin minScore))
               (map (\<lambda>item. scored item
                        (kw (case chunkText item of None \<Rightarrow> [] | Some t \<Rightarrow> t) qry)) embeddings)))
      | None \<Rightarrow> [])"

definition hybridSearch ::
  "(string \<Rightarrow> string \<Rightarrow> jsnum) \<Rightarrow> chunkRecord list option \<Rightarrow> real list option \<Rightarrow> string
     \<Rightarrow> nat \<Rightarrow> real \<Rightarrow> scoredChunk list" where
  \<comment> \<open>defined in both servers, called by neither\<close>
  "hybridSearch kw indexData queryEmbed qry k minScore =
     (case indexData of
        Some embeddings \<Rightarrow>
          take k (jsSort byScoreDesc
            (filter (\<lambda>x. jge (score x) (Fin minScore))
               (map (\<lambda>item.
                   (let semScore = cosineSimilarity queryEmbed (embedding item);
                        kwScore = kw (case chunkText item of None \<Rightarrow> [] | Some t \<Rightarrow> t) qry
                    in scored item (jadd (jmul (Fin 0.7) semScore) (jmul (Fin 0.3) kwScore))))
                  embeddings)))
      | None \<Rightarrow> [])"

text \<open>
  The \<^verbatim>\<open>Map\<close> of the hybrid branch, as an association list in insertion order:
  setting a key that is present replaces its value in place, a new key goes last.
\<close>

fun mapSet :: "string \<Rightarrow> 'v \<Rightarrow> (string \<times> 'v) list \<Rightarrow> (string \<times> 'v) list" where
  "mapSet k v [] = [(k, v)]"
| "mapSet k v (p # ps) = (if fst p = k then (k, v) # ps else p # mapSet k v ps)"

definition mergeKeyword :: "scoredChunk list \<Rightarrow> (string \<times> scoredChunk) list" where
  \<comment> \<open>\<^verbatim>\<open>for (const r of keyResults) merged.set(r.chunkId, {...r, score: r.score})\<close>\<close>
  "mergeKeyword keyResults = fold (\<lambda>r merged. mapSet (chunkId r) r merged) keyResults []"

definition mergeSemantic ::
  "scoredChunk list \<Rightarrow> (string \<times> scoredChunk) list \<Rightarrow> (string \<times> scoredChunk) list" where
  "mergeSemantic semResults merged0 =
     fold (\<lambda>r merged.
        (case map_of merged (chunkId r) of
           Some existing \<Rightarrow>
             mapSet (chunkId r)
               (r\<lparr>score := jdiv (jadd (score existing) (score r)) (Fin 2)\<rparr>) merged
         | None \<Rightarrow> mapSet (chunkId r) r merged))
       semResults merged0"

text \<open>
  The request body (absent fields are \<open>None\<close>), the embedding of the query by the external
  service (\<open>None\<close> when the call is rejected), and the response.
\<close>

record searchBody =
  body_query :: "string option"
  body_mode :: "string option"
  body_topK :: "int option"
  body_minScore :: "real option"

datatype searchError = SearchFailed

record searchHit =
  hit_chunkId :: string
  hit_path :: string
  hit_title :: string
  hit_section :: string
  hit_fileType :: string
  hit_modifiedAt :: nat
  hit_score :: jsnum
  hit_text :: string
  hit_highlights :: "string list"

record searchResponse =
  resp_queryId :: string
  resp_chunks :: "searchHit list"
  resp_noIndex :: bool

definition getQueryEmbedding ::
  "(string \<Rightarrow> real list option) \<Rightarrow> string \<Rightarrow> searchError + real list option" where
  "getQueryEmbedding service txt =
     (if txt = [] then Inr None
      else (case service txt of None \<Rightarrow> Inl SearchFailed | Some v \<Rightarrow> Inr (Some v)))"

definition isSeparator :: "char \<Rightarrow> bool" where
  "isSeparator c = (c = CHR ''/'' \<or> c = CHR 0x5C)"

definition basename :: "string \<Rightarrow> string" where
  \<comment> \<open>path.basename: the last segment, trailing separators ignored\<close>
  "basename p = rev (takeWhile (\<lambda>c. \<not> isSeparator c) (dropWhile isSeparator (rev p)))"

definition extname :: "string \<Rightarrow> string" where
  \<comment> \<open>path.extname: from the last dot of the last segment, unless that dot leads it\<close>
  "extname p =
     (let b = basename p; e = takeWhile (\<lambda>c. c \<noteq> CHR ''.'') (rev b)
      in if length e = length b \<or> Suc (length e) = length b \<or> b = ''..'' then []
         else CHR ''.'' # rev e)"

definition toHit :: "nat \<Rightarrow> scoredChunk \<Rightarrow> searchHit" where
  "toHit now r =
     \<lparr>hit_chunkId = chunkId r,
      hit_path = filePath r,
      hit_title = basename (filePath r),
      hit_section = ''Chunk '' @ digitsOf (chunkIndex r),
      hit_fileType = drop 1 (extname (filePath r)),
      hit_modifiedAt = now,
      hit_score = score r,
      hit_text = take 500 (case chunkText r of None \<Rightarrow> [] | Some t \<Rightarrow> t),
      hit_highlights = []\<rparr>"

definition clampTopK :: "int option \<Rightarrow> nat" where
  \<comment> \<open>\<^verbatim>\<open>Math.min(100, Math.max(1, body.topK || 20))\<close>\<close>
  "clampTopK t =
     nat (min 100 (max 1 (case t of None \<Rightarrow> 20 | Some n \<Rightarrow> if n = 0 then 20 else n)))"

definition queryOf :: "searchBody \<Rightarrow> string" where
  \<comment> \<open>\<^verbatim>\<open>body.query || ""\<close>\<close>
  "queryOf body = (case body_query body of None \<Rightarrow> [] | Some q \<Rightarrow> q)"

definition modeOf :: "searchBody \<Rightarrow> string" where
  \<comment> \<open>\<^verbatim>\<open>body.mode || "keyword"\<close>\<close>
  "modeOf body =
     (case body_mode body of None \<Rightarrow> ''keyword'' | Some m \<Rightarrow> if m = [] then ''keyword'' else m)"

definition minScoreOf :: "searchBody \<Rightarrow> real" where
  \<comment> \<open>\<^verbatim>\<open>body.filters?.minScore ?? 0.3\<close>\<close>
  "minScoreOf body = (case body_minScore body of None \<Rightarrow> 0.3 | Some m \<Rightarrow> m)"

definition searchResults ::
  "(string \<Rightarrow> string \<Rightarrow> jsnum) \<Rightarrow> (string \<Rightarrow> real list option) \<Rightarrow> chunkRecord list option
     \<Rightarrow> searchBody \<Rightarrow> searchError + scoredChunk list" where
  \<comment> \<open>the three branches on the mode, up to \<^verbatim>\<open>results\<close>\<close>
  "searchResults kw service indexData body =
     (let qry = queryOf body;
          mode = modeOf body;
          k = clampTopK (body_topK body);
          minScore = minScoreOf body
      in if mode = ''semantic'' then
           (case getQueryEmbedding service qry of
              Inl e \<Rightarrow> Inl e
            | Inr (Some q) \<Rightarrow> Inr (semanticSearch indexData (Some q) k minScore)
            | Inr None \<Rightarrow> Inr (keywordSearch kw indexData qry k minScore))
         else if mode = ''hybrid'' then
           (let keyResults = keywordSearch kw indexData qry k minScore
            in case getQueryEmbedding service qry of
                 Inl e \<Rightarrow> Inl e
               | Inr queryEmbed \<Rightarrow>
                   (let semResults =
                          (case queryEmbed of
                             Some q \<Rightarrow> semanticSearch indexData (Some q) k minScore
                           | None \<Rightarrow> []);
                        merged = mergeSemantic semResults (mergeKeyword keyResults)
                    in Inr (take k (jsSort byScoreDesc (map snd merged)))))
         else Inr (keywordSearch kw indexData qry k minScore))"

definition search ::
  "(string \<Rightarrow> string \<Rightarrow> jsnum) \<Rightarrow> (string \<Rightarrow> real list option) \<Rightarrow> nat
     \<Rightarrow> chunkRecord list option \<Rightarrow> searchBody \<Rightarrow> searchError + searchResponse" where
  \<comment> \<open>the handler of POST /api/search; \<open>now\<close> is the clock, read by \<^verbatim>\<open>Date\<close>\<close>
  "search kw service now indexData body =
     (if indexData = None \<or> indexData = Some [] then
        Inr \<lparr>resp_queryId = ''q_'' @ digitsOf now, resp_chunks = [], resp_noIndex = True\<rparr>
      else
        (case searchResults kw service indexData body of
           Inl e \<Rightarrow> Inl e
         | Inr results \<Rightarrow>
             Inr \<lparr>resp_queryId = ''q_'' @ digitsOf now, resp_chunks = map (toHit now) results,
                  resp_noIndex = False\<rparr>))"

definition search_rag ::
  "(string \<Rightarrow> real list option) \<Rightarrow> nat \<Rightarrow> chunkRecord list option \<Rightarrow> searchBody
     \<Rightarrow> searchError + searchResponse" where
  \<comment> \<open>rag-backend/src/server.mjs\<close>
  "search_rag = search keywordScore"

definition search_indexer ::
  "(string \<Rightarrow> real list option) \<Rightarrow> nat \<Rightarrow> chunkRecord list option \<Rightarrow> searchBody
     \<Rightarrow> searchError + searchResponse" where
  \<comment> \<open>the indexer backend's server (unnamed/part_004)\<close>
  "search_indexer = search keywordScore_indexer"

text \<open>
  Cosine similarity as the specification words it, over the reals: 0 when a vector is
  missing, when the lengths differ or when a magnitude is zero, and otherwise the dot
  product divided by the product of the magnitudes.
\<close>

definition dotProduct :: "real list \<Rightarrow> real list \<Rightarrow> real" where
  "dotProduct va vb = (\<Sum>(x, y)\<leftarrow>zip va vb. x * y)"

definition sumSquares :: "real list \<Rightarrow> real" where
  "sumSquares v = (\<Sum>x\<leftarrow>v. x * x)"

definition magnitude :: "real list \<Rightarrow> real" where
  "magnitude v = sqrt (sumSquares v)"

definition cosineSpec :: "real list option \<Rightarrow> real list option \<Rightarrow> real" where
  "cosineSpec a b =
     (case (a, b) of
        (Some va, Some vb) \<Rightarrow>
          (if length va \<noteq> length vb \<or> magnitude va = 0 \<or> magnitude vb = 0 then 0
           else dotProduct va vb / (magnitude va * magnitude vb))
      | _ \<Rightarrow> 0)"

definition inRange :: "real list option \<Rightarrow> bool" where
  \<comment> \<open>the squares of the components add up below the overflow bound\<close>
  "inRange a = (case a of None \<Rightarrow> True | Some v \<Rightarrow> sumSquares v < overflowBound)"



section \<open>PathSelector and FileWalker (the indexer worker)\<close>

text \<open>
  The regular-expression engine is a parameter: \<open>regexTest src s\<close> stands for
  \<^verbatim>\<open>new RegExp(src, 'i').test(s)\<close>. The two branches of matchesGlob that do not
  use it are modelled in full.
\<close>

record selection =
  sel_include :: "string list"
  sel_exclude :: "string list"

definition splitOn :: "string \<Rightarrow> string \<Rightarrow> string list" where
  \<comment> \<open>\<^verbatim>\<open>split\<close> on a non-empty separator string\<close>
  "splitOn sep s = split (\<lambda>t. if startsWith t sep then length sep else 0) s"

fun globParts :: "string \<Rightarrow> string list \<Rightarrow> bool" where
  \<comment> \<open>the loop over the parts of a pattern with \<^verbatim>\<open>**\<close>\<close>
  "globParts current [] = True"
| "globParts current (part # parts) =
     (if part = [] then globParts current parts
      else
        (case indexOf current (filter (\<lambda>c. c \<noteq> CHR ''*'') part) of
           None \<Rightarrow> False
         | Some idx \<Rightarrow> globParts (drop idx current) parts))"

definition matchesGlob :: "(string \<Rightarrow> string \<Rightarrow> bool) \<Rightarrow> string \<Rightarrow> string \<Rightarrow> bool" where
  "matchesGlob regexTest path pattern =
     (let normalized = replaceAllChar (CHR 0x5C) ''/'' path;
          normPattern = replaceAllChar (CHR 0x5C) ''/'' pattern;
          hasWildcard = (CHR ''*'' \<in> set normPattern)
      in if \<not> hasWildcard then
           (let base = (if endsWith normPattern ''/'' then normPattern else normPattern @ ''/'')
            in startsWith (toLowerCase normalized) (toLowerCase base))
         else if includesStr normPattern ''**'' then
           globParts normalized (splitOn ''**/'' normPattern)
         else
           regexTest
             (''^'' @ replaceAllChar (CHR ''*'') ''.*''
                       (replaceAllChar (CHR ''.'') [CHR 0x5C, CHR ''.''] normPattern) @ ''$'')
             normalized)"

text \<open>
  The file system as the walk sees it: \<open>readdir p\<close> lists the entries of directory \<open>p\<close>
  with their kinds, or is \<open>None\<close> when the call throws.
\<close>

datatype entryKind = IsFile | IsDirectory | IsOther

type_synonym dirent = "string \<times> entryKind"

definition pathJoin :: "string \<Rightarrow> string \<Rightarrow> string" where
  \<comment> \<open>path.join of a normalised folder path and a plain entry name, \<open>/\<close> as separator\<close>
  "pathJoin folder name =
     (if folder = [] then name
      else if isSeparator (last folder) then folder @ name
      else folder @ ''/'' @ name)"

definition indexedExtensions :: "string list" where
  "indexedExtensions =
     [''.pdf'', ''.docx'', ''.xlsx'', ''.pptx'', ''.txt'', ''.md'', ''.csv'', ''.json'', ''.yaml'',
      ''.yml'', ''.js'', ''.ts'', ''.tsx'', ''.jsx'', ''.css'', ''.mjs'', ''.py'', ''.html'']"

definition entrySelected :: "(string \<Rightarrow> string \<Rightarrow> bool) \<Rightarrow> selection \<Rightarrow> string \<Rightarrow> bool" where
  \<comment> \<open>the test on each entry: \<^verbatim>\<open>if (!matches || excluded) continue\<close>\<close>
  "entrySelected regexTest sel fullPath =
     (let matches = (length (sel_include sel) = 0
                      \<or> list_ex (\<lambda>rule. matchesGlob regexTest fullPath rule) (sel_include sel));
          excluded = list_ex (\<lambda>rule. matchesGlob regexTest fullPath rule) (sel_exclude sel)
      in \<not> (\<not> matches \<or> excluded))"

function collectFiles ::
  "(string \<Rightarrow> string \<Rightarrow> bool) \<Rightarrow> (string \<Rightarrow> dirent list option) \<Rightarrow> string \<Rightarrow> nat \<Rightarrow> nat
     \<Rightarrow> selection \<Rightarrow> string list" where
  "collectFiles regexTest readdir folderPath maxDepth depth sel =
     (if depth > maxDepth then []
      else if list_ex (\<lambda>rule. matchesGlob regexTest folderPath rule) (sel_exclude sel) then []
      else
        (case readdir folderPath of
           None \<Rightarrow> []
         | Some entries \<Rightarrow>
             concat (map (\<lambda>entry.
               if \<not> entrySelected regexTest sel (pathJoin folderPath (fst entry)) then []
               else
                 (case snd entry of
                    IsFile \<Rightarrow>
                      (if toLowerCase (extname (pathJoin folderPath (fst entry)))
                            \<in> set indexedExtensions
                       then [pathJoin folderPath (fst entry)] else [])
                  | IsDirectory \<Rightarrow>
                      collectFiles regexTest readdir (pathJoin folderPath (fst entry)) maxDepth
                        (depth + 1) sel
                  | IsOther \<Rightarrow> [])) entries)))"
  by pat_completeness auto
termination
  by (relation "measure (\<lambda>(regexTest, readdir, folderPath, maxDepth, depth, sel). Suc maxDepth - depth)")
     auto

declare collectFiles.simps [simp del]




text \<open>
  Selection as the specification words it: a path is selected when it matches at least
  one include pattern, or the include list is empty, and matches no exclude pattern.
\<close>

definition isSelected :: "(string \<Rightarrow> string \<Rightarrow> bool) \<Rightarrow> string \<Rightarrow> selection \<Rightarrow> bool" where
  "isSelected regexTest p r =
     ((sel_include r = [] \<or> (\<exists>rule \<in> set (sel_include r). matchesGlob regexTest p rule))
      \<and> \<not> (\<exists>rule \<in> set (sel_exclude r). matchesGlob regexTest p rule))"

section \<open>IndexerController (the indexer worker process)\<close>

text \<open>
  The module state of the worker: the object \<^verbatim>\<open>STATE\<close> and the variables beside it.
  \<open>embeddingService\<close> tells whether the variable holds a process, \<open>outbox\<close> lists the
  messages sent to the parent, oldest first, \<open>snapshots\<close> the index files written, and
  \<open>embedRequests\<close> counts the requests written to the embedding process. Times, the
  index configuration and the size on disk are left out.
\<close>

record bufferedChunk =
  buf_filePath :: string
  buf_chunkIndex :: nat
  buf_text :: string

record statsPayload =
  st_state :: string
  st_queued :: nat
  st_processed :: nat
  st_failed :: nat
  st_bytesProcessed :: nat
  st_generated :: nat
  st_embedded :: nat
  st_embeddingsPending :: nat

record completePayload =
  done_filesProcessed :: nat
  done_filesFailed :: nat
  done_chunksEmbedded :: nat
  done_bytesProcessed :: nat

datatype message =
  Ready
| Stats statsPayload
| LogMsg string
| WarningMsg string
| ErrorMsg string
| Complete completePayload
| Stopped

record worker =
  running :: bool
  paused :: bool
  filesQueued :: nat
  filesProcessed :: nat
  filesFailed :: nat
  bytesProcessed :: nat
  chunksGenerated :: nat
  chunksEmbedded :: nat
  embeddingsPending :: nat
  embeddingsStore :: "chunkRecord list"
  embeddingService :: bool
  embeddingEnabled :: bool
  embeddingBuffer :: "bufferedChunk list"
  embedRequests :: nat
  outbox :: "message list"
  snapshots :: "chunkRecord list list"

definition BATCH_SIZE :: nat where
  "BATCH_SIZE = 10"

text \<open>
  What the run meets outside the worker. The embedding process either reports ready in
  time or not; its answer to the \<open>n\<close>-th request is a response, or \<open>None\<close> when the call
  is rejected (an error response, the 30 s timeout, the end of the stream). A response
  carries \<open>embeddings\<close>, absent or an array whose entries may be null, and \<open>count\<close>.
  Control messages are handled at the points where the run awaits input or output:
  \<open>env_before\<close> during start-up and enumeration, \<open>env_during k\<close> while file number \<open>k\<close>
  (from 0) is in flight, and \<open>env_paused k\<close> while the loop sleeps in the paused state
  before file \<open>k\<close>, up to the poll that ends the sleep. A second \<^verbatim>\<open>start\<close> during a run is
  not modelled.
\<close>

datatype command = Pause | Resume | Stop

record embedResponse =
  rep_embeddings :: "real list option list option"
  rep_count :: nat

record env =
  env_regexTest :: "string \<Rightarrow> string \<Rightarrow> bool"
  env_readdir :: "string \<Rightarrow> dirent list option"
  env_stat :: "string \<Rightarrow> nat option"
  env_readFile :: "string \<Rightarrow> string option"
  env_initReady :: bool
  env_embed :: "nat \<Rightarrow> embedResponse option"
  env_writeOk :: bool
  env_before :: "command list"
  env_during :: "nat \<Rightarrow> command list"
  env_paused :: "nat \<Rightarrow> command list"

definition sendUpdate :: "worker \<Rightarrow> worker" where
  "sendUpdate w =
     w\<lparr>outbox := outbox w @
        [Stats \<lparr>st_state = (if paused w then ''paused'' else if running w then ''embedding'' else ''idle''),
                st_queued = filesQueued w,
                st_processed = filesProcessed w,
                st_failed = filesFailed w,
                st_bytesProcessed = bytesProcessed w,
                st_generated = chunksGenerated w,
                st_embedded = chunksEmbedded w,
                st_embeddingsPending = embeddingsPending w\<rparr>]\<rparr>"

fun handleCommand :: "command \<Rightarrow> worker \<Rightarrow> worker" where
  \<comment> \<open>the handler of \<^verbatim>\<open>process.on('message')\<close> for pause, resume and stop\<close>
  "handleCommand Pause w = sendUpdate (w\<lparr>paused := True\<rparr>)"
| "handleCommand Resume w = sendUpdate (w\<lparr>paused := False\<rparr>)"
| "handleCommand Stop w = (w\<lparr>running := False, paused := False\<rparr>)\<lparr>outbox := outbox w @ [Stopped]\<rparr>"

definition handleAll :: "command list \<Rightarrow> worker \<Rightarrow> worker" where
  "handleAll cmds w = fold handleCommand cmds w"

definition storeBatch :: "bufferedChunk list \<Rightarrow> real list option list \<Rightarrow> chunkRecord list" where
  \<comment> \<open>the loop over \<^verbatim>\<open>result.embeddings\<close>: a missing chunk or embedding is skipped\<close>
  "storeBatch batch embs =
     concat (map (\<lambda>(chunk, emb).
        (case emb of
           None \<Rightarrow> []
         | Some v \<Rightarrow>
             [\<lparr>filePath = buf_filePath chunk, chunkIndex = buf_chunkIndex chunk,
               chunkText = Some (buf_text chunk), embedding = Some v\<rparr>])) (zip batch embs))"

definition processPendingEmbeddings :: "env \<Rightarrow> worker \<Rightarrow> worker" where
  "processPendingEmbeddings e w =
     (if length (embeddingBuffer w) = 0 then w
      else if \<not> embeddingEnabled w then w\<lparr>embeddingBuffer := [], embeddingsPending := 0\<rparr>
      else
        (let batch = take BATCH_SIZE (embeddingBuffer w);
             w1 = w\<lparr>embeddingBuffer := drop BATCH_SIZE (embeddingBuffer w)\<rparr>
         in if \<not> embeddingService w1 then w1
            else
              (case env_embed e (embedRequests w1) of
                 None \<Rightarrow> w1\<lparr>embedRequests := embedRequests w1 + 1\<rparr>
               | Some result \<Rightarrow>
                   sendUpdate
                     (w1\<lparr>embedRequests := embedRequests w1 + 1,
                         embeddingsStore := embeddingsStore w1 @
                           (case rep_embeddings result of
                              None \<Rightarrow> []
                            | Some embs \<Rightarrow> storeBatch batch embs),
                         chunksEmbedded := chunksEmbedded w1 + rep_count result,
                         embeddingsPending := embeddingsPending w1 - rep_count result\<rparr>))))"

definition textExtensions :: "string list" where
  "textExtensions =
     [''.txt'', ''.md'', ''.mjs'', ''.js'', ''.py'', ''.json'', ''.yaml'', ''.yml'', ''.csv'',
      ''.html'', ''.css'', ''.tsx'', ''.ts'', ''.jsx'']"

definition extractText :: "env \<Rightarrow> string \<Rightarrow> string" where
  \<comment> \<open>the text of a file: empty for another extension or when reading fails\<close>
  "extractText e path =
     (if toLowerCase (extname path) \<in> set textExtensions
      then (case env_readFile e path of None \<Rightarrow> [] | Some t \<Rightarrow> t) else [])"

definition queueChunks :: "string \<Rightarrow> string list \<Rightarrow> bufferedChunk list" where
  "queueChunks path cs =
     map (\<lambda>i. \<lparr>buf_filePath = path, buf_chunkIndex = i, buf_text = cs ! i\<rparr>) [0..<length cs]"

definition processFile :: "env \<Rightarrow> string \<Rightarrow> worker \<Rightarrow> worker \<times> bool" where
  \<comment> \<open>the second component is \<^verbatim>\<open>success\<close> of the returned object\<close>
  "processFile e path w =
     (case env_stat e path of
        None \<Rightarrow> (w\<lparr>filesFailed := filesFailed w + 1\<rparr>, False)
      | Some fileSize \<Rightarrow>
          (let txt = extractText e path
           in if txt = [] \<or> length (trim txt) = 0 then
                (w\<lparr>filesProcessed := filesProcessed w + 1,
                   bytesProcessed := bytesProcessed w + fileSize\<rparr>, True)
              else
                (let cs = chunkLoop txt 0 [];
                     w1 = w\<lparr>filesProcessed := filesProcessed w + 1,
                             bytesProcessed := bytesProcessed w + fileSize,
                             chunksGenerated := chunksGenerated w + length cs\<rparr>;
                     w2 = w1\<lparr>embeddingBuffer := embeddingBuffer w1 @ queueChunks path cs,
                              embeddingsPending := embeddingsPending w1 + length cs\<rparr>
                 in if BATCH_SIZE \<le> length (embeddingBuffer w2)
                    then (processPendingEmbeddings e w2, True) else (w2, True))))"

definition loopStep :: "env \<Rightarrow> nat \<Rightarrow> string \<Rightarrow> worker \<Rightarrow> worker" where
  \<comment> \<open>the body of the loop over the files, after the pause and stop checks\<close>
  "loopStep e k path w =
     (case processFile e path (handleAll (env_during e k) w) of
        (w1, success) \<Rightarrow>
          (let after = filesProcessed w1 + filesFailed w1
           in if after = 1 \<or> after mod 50 = 0 \<or> \<not> success then sendUpdate w1 else w1))"












fun isStats :: "message \<Rightarrow> bool" where
  "isStats (Stats p) = True"
| "isStats m = False"

definition statsCount :: "worker \<Rightarrow> nat" where
  \<comment> \<open>the number of progress snapshots pushed so far\<close>
  "statsCount w = length (filter isStats (outbox w))"





section \<open>Chunker: the loop against its specification\<close>

lemma trim_idem: "trim (trim s) = trim s"
proof -
  define t where "t = dropWhile isWhiteSpace s"
  define u where "u = dropWhile isWhiteSpace (rev t)"
  have u: "dropWhile isWhiteSpace u = u"
    unfolding u_def by (simp add: dropWhile_idem)
  have "dropWhile isWhiteSpace (rev u) = rev u"
  proof (cases "rev u")
    case Nil then show ?thesis by simp
  next
    case (Cons x xs)
    have "rev u = rev (dropWhile isWhiteSpace (rev t))" by (simp add: u_def)
    have "set u \<subseteq> set t" unfolding u_def by (metis set_dropWhileD set_rev subsetI)
    have "u \<noteq> []" using Cons by auto
    have "x = hd (rev u)" using Cons by simp
    also have "\<dots> = last u" by (simp add: hd_rev)
    finally have "x = last u" .
    have "t \<noteq> []" using \<open>u \<noteq> []\<close> u_def by auto
    have "last u = last (rev t)" unfolding u_def using \<open>u \<noteq> []\<close>[unfolded u_def]
      by (metis dropWhile_eq_Nil_conv last_appendR takeWhile_dropWhile_id)
    also have "\<dots> = hd t" using \<open>t \<noteq> []\<close> by (simp add: last_rev)
    finally have "last u = hd t" .
    have "\<not> isWhiteSpace (hd t)" unfolding t_def using \<open>t \<noteq> []\<close>[unfolded t_def]
      by (simp add: hd_dropWhile)
    then have "\<not> isWhiteSpace x" using \<open>x = last u\<close> \<open>last u = hd t\<close> by simp
    then show ?thesis using Cons by simp
  qed
  then show ?thesis
    unfolding trim_def using u by (simp add: t_def u_def)
qed

lemma substring_window:
  "substring text (400 * k) (min (400 * k + 500) (length text)) = window text k"
  by (auto simp: substring_def window_def Let_def min_def max_def)

lemma windowCount_last:
  assumes "k < windowCount n"
  shows "(n \<le> 400 * k + 500) = (Suc k = windowCount n)"
proof -
  let ?q = "(n - 500 + 399) div 400"
  have kq: "k \<le> ?q" using assms by (simp add: windowCount_def)
  have "(?q < Suc k) = (n - 500 + 399 < Suc k * 400)"
    by (rule div_less_iff_less_mult) simp
  then have "(?q \<le> k) = (n \<le> 400 * k + 500)" by auto
  then show ?thesis using kq by (auto simp: windowCount_def)
qed

lemma windowCount_start:
  assumes "k < windowCount n" "n \<noteq> 0"
  shows "400 * k < n"
proof -
  let ?q = "(n - 500 + 399) div 400"
  have kq: "k \<le> ?q" using assms by (simp add: windowCount_def)
  have "400 * ?q \<le> n - 500 + 399" by simp
  then have "400 * k \<le> n - 500 + 399" using kq by (meson le_trans mult_le_mono2)
  moreover have "k = 0" if "n \<le> 500" using that kq by simp
  ultimately show ?thesis using assms(2) by (cases "n \<le> 500") auto
qed

lemma chunkLoop_spec:
  "k < windowCount (length text) \<Longrightarrow> text \<noteq> [] \<Longrightarrow>
   chunkLoop text (400 * k) acc =
     acc @ filter (\<lambda>c. 50 < length c) (map (\<lambda>k. trim (window text k)) [k..<windowCount (length text)])"
proof (induction "windowCount (length text) - k" arbitrary: k acc)
  case 0
  then show ?case by simp
next
  case (Suc d)
  let ?n = "windowCount (length text)"
  have lt: "400 * k < length text" using Suc.prems by (simp add: windowCount_start)
  have last: "(length text \<le> 400 * k + 500) = (Suc k = ?n)"
    using Suc.prems by (simp add: windowCount_last)
  have upt: "[k..<?n] = k # [Suc k..<?n]" using Suc.prems by (simp add: upt_conv_Cons)
  have sub: "substring text (400 * k) (min (400 * k + CHUNK_SIZE) (length text)) = window text k"
    using substring_window[of _ k] by (simp add: CHUNK_SIZE_def)
  show ?case
  proof (cases "Suc k = ?n")
    case True
    then have "length text \<le> 400 * k + 500" using last by simp
    then show ?thesis
      using lt sub True upt
      by (subst chunkLoop.simps) (simp add: Let_def CHUNK_SIZE_def)
  next
    case False
    then have nl: "\<not> length text \<le> 400 * k + 500" using last by simp
    have k': "Suc k < ?n" using False Suc.prems by simp
    have d: "d = ?n - Suc k" using Suc.hyps(2) by simp
    have step: "400 * k + (CHUNK_SIZE - CHUNK_OVERLAP) = 400 * Suc k"
      by (simp add: CHUNK_SIZE_def CHUNK_OVERLAP_def)
    have IH: "\<And>acc. chunkLoop text (400 * Suc k) acc =
       acc @ filter (\<lambda>c. 50 < length c) (map (\<lambda>k. trim (window text k)) [Suc k..<?n])"
      using Suc.hyps(1)[OF d k' Suc.prems(2)] .
    show ?thesis
      apply (subst chunkLoop.simps)
      using lt nl sub upt
      apply (simp only: step Let_def IH)
      apply (simp add: CHUNK_SIZE_def)
      done
  qed
qed


lemma trim_Nil_iff: "trim s = [] \<longleftrightarrow> (\<forall>c\<in>set s. isWhiteSpace c)"
proof -
  have "dropWhile isWhiteSpace (rev (dropWhile isWhiteSpace s)) = [] \<longleftrightarrow> dropWhile isWhiteSpace s = []"
  proof
    assume a: "dropWhile isWhiteSpace (rev (dropWhile isWhiteSpace s)) = []"
    show "dropWhile isWhiteSpace s = []"
    proof (rule ccontr)
      assume n: "dropWhile isWhiteSpace s \<noteq> []"
      then have "\<not> isWhiteSpace (hd (dropWhile isWhiteSpace s))" by (simp add: hd_dropWhile)
      moreover have "hd (dropWhile isWhiteSpace s) \<in> set (rev (dropWhile isWhiteSpace s))"
        using n by simp
      ultimately show False using a by (simp add: dropWhile_eq_Nil_conv del: set_rev)
    qed
  next
    assume "dropWhile isWhiteSpace s = []"
    then show "dropWhile isWhiteSpace (rev (dropWhile isWhiteSpace s)) = []"
      by (simp only: rev.simps dropWhile.simps)
  qed
  then show ?thesis by (simp add: trim_def)
qed

lemma blank_window: "trim txt = [] \<Longrightarrow> trim (window txt k) = []"
  unfolding trim_Nil_iff window_def by (meson in_set_dropD in_set_takeD)

lemma splitChunks_eq_spec:
  "splitChunks txt = chunkSpec txt \<and> (\<forall>c\<in>set (splitChunks txt). 50 < length (trim c))"
proof -
  have eq: "splitChunks txt = chunkSpec txt"
  proof (cases "txt = [] \<or> length (trim txt) = 0")
    case True
    then have "trim txt = []" by (auto simp: trim_def)
    then have "\<And>k. trim (window txt k) = []" by (rule blank_window)
    then have "chunkSpec txt = []" by (simp add: chunkSpec_def)
    then show ?thesis using True by (simp add: splitChunks_def)
  next
    case False
    then have ne: "txt \<noteq> []" by simp
    have "0 < windowCount (length txt)" by (simp add: windowCount_def)
    from chunkLoop_spec[OF this ne, of "[]"] False show ?thesis
      by (simp add: splitChunks_def chunkSpec_def)
  qed
  have "\<forall>c\<in>set (chunkSpec txt). 50 < length (trim c)"
    by (auto simp: chunkSpec_def trim_idem)
  with eq show ?thesis by simp
qed



section \<open>Cosine similarity\<close>

lemma overflowBound_pos: "0 < overflowBound"
  by (simp add: overflowBound_def)

lemma ovf_Fin: "\<bar>x\<bar> < overflowBound \<Longrightarrow> ovf x = Fin x"
  by (auto simp: ovf_def)

lemma abs_less_bound:
  assumes "x\<^sup>2 \<le> a * b" "0 \<le> a" "0 \<le> b" "a < overflowBound" "b < overflowBound"
  shows "\<bar>x\<bar> < overflowBound"
proof -
  have "a * b < overflowBound * overflowBound"
    using assms overflowBound_pos by (meson mult_le_less_imp_less less_imp_le mult_strict_mono')
  then have "x\<^sup>2 < overflowBound\<^sup>2" using assms(1) by (simp add: power2_eq_square)
  then show ?thesis using overflowBound_pos
    by (metis abs_of_pos less_imp_le power2_abs power2_less_imp_less)
qed

lemma cauchy_step:
  fixes d A B x y :: real
  assumes "d\<^sup>2 \<le> A * B" "0 \<le> A" "0 \<le> B"
  shows "(d + x * y)\<^sup>2 \<le> (A + x * x) * (B + y * y)"
proof -
  let ?s = "x * x * B + y * y * A"
  have s0: "0 \<le> ?s" using assms by simp
  have "(2 * d * x * y)\<^sup>2 = 4 * (x * x) * (y * y) * d\<^sup>2" by (simp add: power2_eq_square)
  also have "\<dots> \<le> 4 * (x * x) * (y * y) * (A * B)"
    using assms(1) by (intro mult_left_mono) auto
  also have "\<dots> \<le> ?s\<^sup>2"
  proof -
    have "0 \<le> (x * x * B - y * y * A)\<^sup>2" by simp
    then show ?thesis by (simp add: power2_eq_square algebra_simps)
  qed
  finally have "\<bar>2 * d * x * y\<bar> \<le> \<bar>?s\<bar>" by (simp only: abs_le_square_iff)
  then have "2 * d * x * y \<le> ?s" using s0 by linarith
  then show ?thesis using assms(1) by (simp add: power2_eq_square algebra_simps)
qed


lemma sum_sq_nonneg: "0 \<le> (\<Sum>(x, y)\<leftarrow>zs. x * x :: real)"
  by (rule sum_list_nonneg) auto

lemma sum_sq_nonneg2: "0 \<le> (\<Sum>(x, y)\<leftarrow>zs. y * y :: real)"
  by (rule sum_list_nonneg) auto

lemma cosineStep_in_range:
  assumes "0 \<le> A" "0 \<le> B" "d\<^sup>2 \<le> A * B"
    and "A + x * x < overflowBound" "B + y * y < overflowBound"
  shows "cosineStep (x, y) (Fin d, Fin A, Fin B) = (Fin (d + x * y), Fin (A + x * x), Fin (B + y * y))"
proof -
  have xx: "\<bar>x * x\<bar> < overflowBound" using assms by (simp add: abs_mult_self_eq) 
  have yy: "\<bar>y * y\<bar> < overflowBound" using assms by (simp add: abs_mult_self_eq)
  have "(x * y)\<^sup>2 \<le> (x * x) * (y * y)" by (simp add: power2_eq_square)
  then have xy: "\<bar>x * y\<bar> < overflowBound"
    using xx yy by (intro abs_less_bound[of _ "x * x" "y * y"]) auto
  have "(d + x * y)\<^sup>2 \<le> (A + x * x) * (B + y * y)"
    using assms by (intro cauchy_step)
  then have dxy: "\<bar>d + x * y\<bar> < overflowBound"
    using assms by (intro abs_less_bound[of _ "A + x * x" "B + y * y"]) auto
  have a: "\<bar>A + x * x\<bar> < overflowBound" using assms by simp
  have b: "\<bar>B + y * y\<bar> < overflowBound" using assms by simp
  show ?thesis
    by (simp add: cosineStep_def ovf_Fin[OF xx] ovf_Fin[OF yy] ovf_Fin[OF xy]
        ovf_Fin[OF dxy] ovf_Fin[OF a] ovf_Fin[OF b])
qed

lemma fold_cosine_in_range:
  assumes "0 \<le> A" "0 \<le> B" "d\<^sup>2 \<le> A * B"
    and "A + (\<Sum>(x, y)\<leftarrow>zs. x * x) < overflowBound"
    and "B + (\<Sum>(x, y)\<leftarrow>zs. y * y) < overflowBound"
  shows "fold cosineStep zs (Fin d, Fin A, Fin B) =
           (Fin (d + (\<Sum>(x, y)\<leftarrow>zs. x * y)), Fin (A + (\<Sum>(x, y)\<leftarrow>zs. x * x)),
            Fin (B + (\<Sum>(x, y)\<leftarrow>zs. y * y)))
         \<and> (d + (\<Sum>(x, y)\<leftarrow>zs. x * y))\<^sup>2
             \<le> (A + (\<Sum>(x, y)\<leftarrow>zs. x * x)) * (B + (\<Sum>(x, y)\<leftarrow>zs. y * y))"
  using assms
proof (induction zs arbitrary: d A B)
  case Nil
  then show ?case by simp
next
  case (Cons z zs)
  obtain x y where z: "z = (x, y)" by (cases z)
  have rx: "0 \<le> (\<Sum>(x, y)\<leftarrow>zs. x * x)" by (rule sum_sq_nonneg)
  have ry: "0 \<le> (\<Sum>(x, y)\<leftarrow>zs. y * y)" by (rule sum_sq_nonneg2)
  have ax: "A + x * x < overflowBound" using Cons.prems(4) rx by (simp add: z)
  have bx: "B + y * y < overflowBound" using Cons.prems(5) ry by (simp add: z)
  have step: "cosineStep (x, y) (Fin d, Fin A, Fin B) = (Fin (d + x * y), Fin (A + x * x), Fin (B + y * y))"
    using Cons.prems(1-3) ax bx by (rule cosineStep_in_range)
  have cs: "(d + x * y)\<^sup>2 \<le> (A + x * x) * (B + y * y)"
    using Cons.prems(1-3) by (intro cauchy_step)
  have IH: "fold cosineStep zs (Fin (d + x * y), Fin (A + x * x), Fin (B + y * y)) =
           (Fin (d + x * y + (\<Sum>(x, y)\<leftarrow>zs. x * y)), Fin (A + x * x + (\<Sum>(x, y)\<leftarrow>zs. x * x)),
            Fin (B + y * y + (\<Sum>(x, y)\<leftarrow>zs. y * y)))
         \<and> (d + x * y + (\<Sum>(x, y)\<leftarrow>zs. x * y))\<^sup>2
             \<le> (A + x * x + (\<Sum>(x, y)\<leftarrow>zs. x * x)) * (B + y * y + (\<Sum>(x, y)\<leftarrow>zs. y * y))"
    using Cons.prems(1,2,4,5) cs by (intro Cons.IH) (auto simp: z add.assoc)
  show ?case using IH by (simp add: z step add.assoc)
qed

lemma zip_sums:
  assumes "length va = length vb"
  shows "(\<Sum>(x, y)\<leftarrow>zip va vb. x * x) = sumSquares va"
    and "(\<Sum>(x, y)\<leftarrow>zip va vb. y * y) = sumSquares vb"
    and "(\<Sum>(x, y)\<leftarrow>zip va vb. x * y) = dotProduct va vb"
proof -
  have "map (\<lambda>(x, y). x * x) (zip va vb) = map (\<lambda>x. x * x) (map fst (zip va vb))"
    by (simp add: case_prod_unfold)
  then show "(\<Sum>(x, y)\<leftarrow>zip va vb. x * x) = sumSquares va"
    using assms by (simp add: sumSquares_def)
  have "map (\<lambda>(x, y). y * y) (zip va vb) = map (\<lambda>x. x * x) (map snd (zip va vb))"
    by (simp add: case_prod_unfold)
  then show "(\<Sum>(x, y)\<leftarrow>zip va vb. y * y) = sumSquares vb"
    using assms by (simp add: sumSquares_def)
  show "(\<Sum>(x, y)\<leftarrow>zip va vb. x * y) = dotProduct va vb"
    by (simp add: dotProduct_def)
qed

lemma sumSquares_nonneg: "0 \<le> sumSquares v"
  unfolding sumSquares_def by (rule sum_list_nonneg) auto

lemma cosine_fold_exact:
  assumes len: "length va = length vb"
    and ra: "sumSquares va < overflowBound" and rb: "sumSquares vb < overflowBound"
  shows "fold cosineStep (zip va vb) (Fin 0, Fin 0, Fin 0) =
           (Fin (dotProduct va vb), Fin (sumSquares va), Fin (sumSquares vb))"
    and "(dotProduct va vb)\<^sup>2 \<le> sumSquares va * sumSquares vb"
  using fold_cosine_in_range[of 0 0 0 "zip va vb"] ra rb
  by (simp_all add: zip_sums[OF len])

lemma cosine_exact:
  assumes len: "length va = length vb"
    and ra: "sumSquares va < overflowBound" and rb: "sumSquares vb < overflowBound"
  shows "cosineSimilarity (Some va) (Some vb) = Fin (cosineSpec (Some va) (Some vb))"
    and "\<bar>cosineSpec (Some va) (Some vb)\<bar> \<le> 1"
proof -
  let ?A = "sumSquares va" and ?B = "sumSquares vb" and ?d = "dotProduct va vb"
  let ?m = "sqrt ?A * sqrt ?B"
  have A0: "0 \<le> ?A" and B0: "0 \<le> ?B" by (rule sumSquares_nonneg)+
  have cs: "?d\<^sup>2 \<le> ?A * ?B" using cosine_fold_exact(2)[OF len ra rb] .
  have m0: "0 \<le> ?m" using A0 B0 by simp
  have m2: "?m\<^sup>2 = ?A * ?B" using A0 B0 by (simp add: power_mult_distrib)
  have mb: "\<bar>?m\<bar> < overflowBound"
    using A0 B0 ra rb m2 by (intro abs_less_bound[of _ ?A ?B]) auto
  have dm: "\<bar>?d\<bar> \<le> ?m"
    using cs m2 m0 by (metis abs_le_square_iff abs_of_nonneg)
  have q1: "\<bar>?d / ?m\<bar> \<le> 1"
  proof (cases "?m = 0")
    case True
    then show ?thesis by (simp only: div_by_0 abs_zero zero_le_one)
  next
    case False
    then have pos: "0 < ?m" using m0 by linarith
    have "\<bar>?d / ?m\<bar> = \<bar>?d\<bar> / ?m" using pos by (simp only: abs_divide abs_of_pos)
    then show ?thesis using dm pos by (simp only: divide_le_eq_1_pos)
  qed
  have qb: "\<bar>?d / ?m\<bar> < overflowBound"
    using q1 by (rule le_less_trans) (simp add: overflowBound_def)
  have mag: "jmul (jsqrt (Fin ?A)) (jsqrt (Fin ?B)) = Fin ?m"
    using A0 B0 by (simp add: ovf_Fin[OF mb])
  have m_zero: "(?m = 0) = (magnitude va = 0 \<or> magnitude vb = 0)"
    by (simp add: magnitude_def)
  have "cosineSimilarity (Some va) (Some vb) =
      (let mag = jmul (jsqrt (Fin ?A)) (jsqrt (Fin ?B))
       in if mag = Fin 0 then Fin 0 else jdiv (Fin ?d) mag)"
    using len
    by (simp add: cosineSimilarity_def cosine_fold_exact(1)[OF len ra rb]
        del: jmul.simps jsqrt.simps jdiv.simps)
  also have "\<dots> = (if ?m = 0 then Fin 0 else Fin (?d / ?m))"
    unfolding mag Let_def by (simp add: ovf_Fin[OF qb])
  also have "\<dots> = Fin (cosineSpec (Some va) (Some vb))"
    using len by (simp add: cosineSpec_def magnitude_def)
  finally show "cosineSimilarity (Some va) (Some vb) = Fin (cosineSpec (Some va) (Some vb))" .
  show "\<bar>cosineSpec (Some va) (Some vb)\<bar> \<le> 1"
    using len q1 by (simp add: cosineSpec_def magnitude_def)
qed

lemma cosine_eq_spec:
  assumes "inRange a" "inRange b"
  shows "cosineSimilarity a b = Fin (cosineSpec a b)"
proof (cases a)
  case None
  then show ?thesis by (simp add: cosineSimilarity_def cosineSpec_def)
next
  case (Some va)
  note a = this
  show ?thesis
  proof (cases b)
    case None
    then show ?thesis by (simp add: cosineSimilarity_def cosineSpec_def a)
  next
    case (Some vb)
    show ?thesis
    proof (cases "length va = length vb")
      case True
      then show ?thesis using assms cosine_exact(1)[of va vb] by (simp add: a Some inRange_def)
    next
      case False
      then show ?thesis by (simp add: cosineSimilarity_def cosineSpec_def a Some)
    qed
  qed
qed

lemma sq_ovf: "jmul (Fin x) (Fin x) = Fin (x * x) \<or> jmul (Fin x) (Fin x) = PInf"
proof -
  have "- overflowBound < x * x" using overflowBound_pos
    by (meson less_le_trans neg_less_0_iff_less zero_le_square)
  then show ?thesis by (auto simp: ovf_def)
qed

lemma fold_sq_PInf:
  "fold (\<lambda>x m. jadd m (jmul (Fin x) (Fin x))) xs PInf = PInf"
proof (induction xs)
  case Nil
  then show ?case by simp
next
  case (Cons x xs)
  have "jadd PInf (jmul (Fin x) (Fin x)) = PInf"
    using sq_ovf[of x] by (auto simp del: jmul.simps)
  then show ?case using Cons by (simp del: jmul.simps)
qed

lemma fold_sq_Fin:
  "0 \<le> A \<Longrightarrow> A < overflowBound \<Longrightarrow>
   fold (\<lambda>x m. jadd m (jmul (Fin x) (Fin x))) xs (Fin A) =
     (if A + sumSquares xs < overflowBound then Fin (A + sumSquares xs) else PInf)"
proof (induction xs arbitrary: A)
  case Nil
  then show ?case by (simp add: sumSquares_def)
next
  case (Cons x xs)
  have r: "0 \<le> sumSquares xs" by (rule sumSquares_nonneg)
  have s: "sumSquares (x # xs) = x * x + sumSquares xs" by (simp add: sumSquares_def)
  have xx: "0 \<le> x * x" by simp
  have nn: "\<not> x * x \<le> - overflowBound" using xx overflowBound_pos by linarith
  consider (big) "overflowBound \<le> A + x * x" | (small) "A + x * x < overflowBound" by linarith
  then show ?case
  proof cases
    case big
    have "jadd (Fin A) (jmul (Fin x) (Fin x)) = PInf"
    proof (cases "overflowBound \<le> x * x")
      case True
      then show ?thesis by (simp add: ovf_def)
    next
      case False
      then have "jmul (Fin x) (Fin x) = Fin (x * x)"
        using nn by (simp add: ovf_def)
      then show ?thesis using big by (simp add: ovf_def del: jmul.simps)
    qed
    then show ?thesis using big r by (simp add: s fold_sq_PInf del: jmul.simps jadd.simps)
  next
    case small
    then have "x * x < overflowBound" using Cons.prems(1) by linarith
    then have m: "jmul (Fin x) (Fin x) = Fin (x * x)"
      using nn by (simp add: ovf_def)
    have a: "jadd (Fin A) (Fin (x * x)) = Fin (A + x * x)"
    proof -
      have "\<not> A + x * x \<le> - overflowBound" using Cons.prems(1) xx overflowBound_pos by linarith
      then show ?thesis using small by (simp add: ovf_def)
    qed
    have "0 \<le> A + x * x" using Cons.prems(1) by simp
    from Cons.IH[OF this small] show ?thesis by (simp add: m a s add.assoc del: jmul.simps jadd.simps)
  qed
qed

lemma fold_cosine_components:
  "fold cosineStep zs (d, mA, mB) =
     (fold (\<lambda>(x, y) d. jadd d (jmul (Fin x) (Fin y))) zs d,
      fold (\<lambda>x m. jadd m (jmul (Fin x) (Fin x))) (map fst zs) mA,
      fold (\<lambda>x m. jadd m (jmul (Fin x) (Fin x))) (map snd zs) mB)"
  by (induction zs arbitrary: d mA mB) (auto simp: cosineStep_def simp del: jmul.simps jadd.simps)

lemma mag_overflow:
  assumes "mA = PInf \<or> mB = PInf"
    and "mA = PInf \<or> (\<exists>s\<ge>0. mA = Fin s)" "mB = PInf \<or> (\<exists>s\<ge>0. mB = Fin s)"
  shows "jmul (jsqrt mA) (jsqrt mB) = PInf \<or> jmul (jsqrt mA) (jsqrt mB) = NaN"
  using assms by (auto simp: infTimes_def)

lemma div_by_overflow:
  assumes "m = PInf \<or> m = NaN"
  shows "jdiv d m = NaN \<or> jdiv d m = Fin 0"
  using assms by (cases d) auto

lemma cosine_range:
  "cosineSimilarity a b = NaN \<or> (\<exists>c. cosineSimilarity a b = Fin c \<and> \<bar>c\<bar> \<le> 1)"
proof (cases "inRange a \<and> inRange b")
  case True
  then have e: "cosineSimilarity a b = Fin (cosineSpec a b)" by (simp add: cosine_eq_spec)
  have "\<bar>cosineSpec a b\<bar> \<le> 1"
  proof (cases "\<exists>va vb. a = Some va \<and> b = Some vb \<and> length va = length vb")
    case True
    then obtain va vb where v: "a = Some va" "b = Some vb" "length va = length vb" by blast
    show ?thesis using cosine_exact(2)[OF v(3)] \<open>inRange a \<and> inRange b\<close>
      by (simp add: v inRange_def)
  next
    case False
    then show ?thesis by (auto simp: cosineSpec_def split: option.splits)
  qed
  then show ?thesis using e by blast
next
  case False
  show ?thesis
  proof (cases "a = None \<or> b = None")
    case True
    then show ?thesis by (auto simp: cosineSimilarity_def split: option.splits)
  next
  case some: False
  then obtain va vb where v: "a = Some va" "b = Some vb" by auto
  show ?thesis
  proof (cases "length va = length vb")
    case ne: False
    then show ?thesis by (simp add: v cosineSimilarity_def)
  next
    case len: True
    obtain d mA mB where f: "fold cosineStep (zip va vb) (Fin 0, Fin 0, Fin 0) = (d, mA, mB)"
      by (metis prod_cases3)
    have mA: "mA = (if sumSquares va < overflowBound then Fin (sumSquares va) else PInf)"
      using f fold_sq_Fin[of 0 va] len overflowBound_pos by (simp add: fold_cosine_components)
    have mB: "mB = (if sumSquares vb < overflowBound then Fin (sumSquares vb) else PInf)"
      using f fold_sq_Fin[of 0 vb] len overflowBound_pos by (simp add: fold_cosine_components)
    have one: "mA = PInf \<or> mB = PInf" using False mA mB by (auto simp: v inRange_def)
    have A: "mA = PInf \<or> (\<exists>s\<ge>0. mA = Fin s)" using mA sumSquares_nonneg[of va] by auto
    have B: "mB = PInf \<or> (\<exists>s\<ge>0. mB = Fin s)" using mB sumSquares_nonneg[of vb] by auto
    have m: "jmul (jsqrt mA) (jsqrt mB) = PInf \<or> jmul (jsqrt mA) (jsqrt mB) = NaN"
      using one A B by (rule mag_overflow)
    then have nz: "jmul (jsqrt mA) (jsqrt mB) \<noteq> Fin 0" by auto
    have "cosineSimilarity a b = jdiv d (jmul (jsqrt mA) (jsqrt mB))"
      using len nz by (simp add: v cosineSimilarity_def f Let_def del: jmul.simps jsqrt.simps jdiv.simps)
    then show ?thesis using div_by_overflow[OF m, of d] by auto
  qed
  qed
qed

lemma cosine_below: "1 < m \<Longrightarrow> \<not> jge (cosineSimilarity a b) (Fin m)"
  using cosine_range[of a b] by auto

section \<open>Search: ranking, filtering and merging\<close>


lemma length_insertSorted: "length (insertSorted cmp x ys) = Suc (length ys)"
  by (induction ys) auto


lemma length_jsSort: "length (jsSort cmp xs) = length xs"
  by (induction xs) (auto simp: jsSort_def length_insertSorted)






lemma score_scored [simp]: "score (scored item s) = s"
  by (simp add: scored_def)


















lemma hit_score_toHit [simp]: "hit_score (toHit now r) = score r"
  by (simp add: toHit_def)


lemma length_ranked:
  "length (take k (jsSort cmp (filter P (map f es)))) = min k (length (filter (P \<circ> f) es))"
  by (simp add: length_jsSort filter_map min.commute)






subsection \<open>Evaluations on a one-chunk index\<close>

text \<open>Concrete runs.\<close>

lemma kw_alpha: "keywordScore ''alpha'' ''alpha'' = Fin 1"
  by code_simp

lemma kw_half: "keywordScore ''alpha gamma'' ''alpha beta'' = Fin (1 / 2)"
  by code_simp

lemma kwi_zero: "keywordScore_indexer ''alpha gamma'' ''alpha beta'' = Fin 0"
  by code_simp

lemma cos_orth: "cosineSimilarity (Some [1, 0]) (Some [0, 1]) = Fin 0"
  by (simp add: cosineSimilarity_def cosineStep_def ovf_def overflowBound_def)

lemma cos_same: "cosineSimilarity (Some [1, 0]) (Some [1, 0]) = Fin 1"
  by (simp add: cosineSimilarity_def cosineStep_def ovf_def overflowBound_def)

lemma digitsOf_0: "digitsOf 0 = ''0''"
  by code_simp

lemma chunkId_ex: "chunkIdOf \<lparr>filePath = ''a.txt'', chunkIndex = 0, chunkText = t, embedding = e\<rparr> = ''chunk_a.txt_0''"
  by (simp add: chunkIdOf_def digitsOf_0)

lemma hybrid_endpoint_1:
  "searchResults keywordScore (\<lambda>q. Some [1, 0])
     (Some [\<lparr>filePath = ''a.txt'', chunkIndex = 0, chunkText = Some ''alpha'', embedding = Some [0, 1]\<rparr>])
     \<lparr>body_query = Some ''alpha'', body_mode = Some ''hybrid'', body_topK = None, body_minScore = None\<rparr>
   = Inr [\<lparr>filePath = ''a.txt'', chunkIndex = 0, chunkText = Some ''alpha'', embedding = Some [0, 1],
           chunkId = ''chunk_a.txt_0'', score = Fin 1\<rparr>]"
  by (simp add: searchResults_def queryOf_def modeOf_def minScoreOf_def clampTopK_def
      keywordSearch_def semanticSearch_def getQueryEmbedding_def kw_alpha cos_orth scored_def
      chunkId_ex jsSort_def mergeKeyword_def mergeSemantic_def)

lemma hybridSearch_1:
  "hybridSearch keywordScore
     (Some [\<lparr>filePath = ''a.txt'', chunkIndex = 0, chunkText = Some ''alpha'', embedding = Some [0, 1]\<rparr>])
     (Some [1, 0]) ''alpha'' 20 0.3
   = [\<lparr>filePath = ''a.txt'', chunkIndex = 0, chunkText = Some ''alpha'', embedding = Some [0, 1],
           chunkId = ''chunk_a.txt_0'', score = Fin 0.3\<rparr>]"
  by (simp add: hybridSearch_def kw_alpha cos_orth scored_def chunkId_ex jsSort_def ovf_def overflowBound_def)



section \<open>The walk yields selected paths only\<close>

lemma entrySelected_iff: "entrySelected rt sel p \<longleftrightarrow> isSelected rt p sel"
  by (auto simp: entrySelected_def isSelected_def list_ex_iff)

lemma collectFiles_selected:
  "p \<in> set (collectFiles rt rd folderPath maxDepth depth sel) \<Longrightarrow> entrySelected rt sel p"
proof (induction rt rd folderPath maxDepth depth sel rule: collectFiles.induct)
  case (1 rt rd folderPath maxDepth depth sel)
  define visit where "visit = (\<lambda>entry :: dirent.
               if \<not> entrySelected rt sel (pathJoin folderPath (fst entry)) then []
               else
                 (case snd entry of
                    IsFile \<Rightarrow>
                      (if toLowerCase (extname (pathJoin folderPath (fst entry)))
                            \<in> set indexedExtensions
                       then [pathJoin folderPath (fst entry)] else [])
                  | IsDirectory \<Rightarrow>
                      collectFiles rt rd (pathJoin folderPath (fst entry)) maxDepth
                        (depth + 1) sel
                  | IsOther \<Rightarrow> []))"
  have unfold: "collectFiles rt rd folderPath maxDepth depth sel =
     (if depth > maxDepth then []
      else if list_ex (\<lambda>rule. matchesGlob rt folderPath rule) (sel_exclude sel) then []
      else (case rd folderPath of None \<Rightarrow> [] | Some entries \<Rightarrow> concat (map visit entries)))"
    unfolding visit_def by (subst collectFiles.simps) (rule refl)
  from "1.prems" have d: "\<not> depth > maxDepth"
    and x: "\<not> list_ex (\<lambda>rule. matchesGlob rt folderPath rule) (sel_exclude sel)"
    unfolding unfold by (auto split: if_splits)
  from "1.prems" obtain entries where rd: "rd folderPath = Some entries"
    and pc: "p \<in> set (concat (map visit entries))"
    unfolding unfold using d x by (cases "rd folderPath") auto
  from pc obtain entry where e: "entry \<in> set entries" and pv: "p \<in> set (visit entry)"
    by auto
  from pv have sel: "entrySelected rt sel (pathJoin folderPath (fst entry))"
    unfolding visit_def by (auto split: if_splits)
  show ?case
  proof (cases "snd entry")
    case IsFile
    then show ?thesis using pv sel unfolding visit_def by (auto split: if_splits)
  next
    case IsDirectory
    then have "p \<in> set (collectFiles rt rd (pathJoin folderPath (fst entry)) maxDepth (depth + 1) sel)"
      using pv sel unfolding visit_def by simp
    then show ?thesis using "1.IH"[OF d x rd e _ IsDirectory] sel by blast
  next
    case IsOther
    then show ?thesis using pv sel unfolding visit_def by simp
  qed
qed

section \<open>The indexing run\<close>





lemma handleAll_Nil [simp]: "handleAll [] w = w"
  by (simp add: handleAll_def)









text \<open>What each operation leaves alone.\<close>

lemma sendUpdate_fields [simp]:
  "running (sendUpdate w) = running w" "paused (sendUpdate w) = paused w"
  "filesProcessed (sendUpdate w) = filesProcessed w" "filesFailed (sendUpdate w) = filesFailed w"
  "embeddingBuffer (sendUpdate w) = embeddingBuffer w" "snapshots (sendUpdate w) = snapshots w"
  "embeddingsStore (sendUpdate w) = embeddingsStore w"
  "embeddingEnabled (sendUpdate w) = embeddingEnabled w"
  "embeddingService (sendUpdate w) = embeddingService w"
  "embedRequests (sendUpdate w) = embedRequests w"
  "outbox (sendUpdate w) = outbox w @ [Stats \<lparr>st_state = (if paused w then ''paused'' else if running w then ''embedding'' else ''idle''),
                st_queued = filesQueued w,
                st_processed = filesProcessed w,
                st_failed = filesFailed w,
                st_bytesProcessed = bytesProcessed w,
                st_generated = chunksGenerated w,
                st_embedded = chunksEmbedded w,
                st_embeddingsPending = embeddingsPending w\<rparr>]"
  by (simp_all add: sendUpdate_def)

lemma statsCount_sendUpdate [simp]: "statsCount (sendUpdate w) = Suc (statsCount w)"
  by (simp add: statsCount_def)

lemma processPending_fields [simp]:
  "running (processPendingEmbeddings e w) = running w"
  "paused (processPendingEmbeddings e w) = paused w"
  "filesProcessed (processPendingEmbeddings e w) = filesProcessed w"
  "filesFailed (processPendingEmbeddings e w) = filesFailed w"
  "snapshots (processPendingEmbeddings e w) = snapshots w"
  "embeddingEnabled (processPendingEmbeddings e w) = embeddingEnabled w"
  "embeddingService (processPendingEmbeddings e w) = embeddingService w"
  by (simp_all add: processPendingEmbeddings_def Let_def split: option.splits)

lemma processFile_fields [simp]:
  "running (fst (processFile e path w)) = running w"
  "paused (fst (processFile e path w)) = paused w"
  "snapshots (fst (processFile e path w)) = snapshots w"
  "embeddingEnabled (fst (processFile e path w)) = embeddingEnabled w"
  "embeddingService (fst (processFile e path w)) = embeddingService w"
  "filesProcessed (fst (processFile e path w)) + filesFailed (fst (processFile e path w))
     = Suc (filesProcessed w + filesFailed w)"
  by (simp_all add: processFile_def Let_def split: option.splits)


lemma handleCommand_fields [simp]:
  "filesProcessed (handleCommand c w) = filesProcessed w"
  "filesFailed (handleCommand c w) = filesFailed w"
  "snapshots (handleCommand c w) = snapshots w"
  "embeddingBuffer (handleCommand c w) = embeddingBuffer w"
  "embeddingEnabled (handleCommand c w) = embeddingEnabled w"
  "embeddingService (handleCommand c w) = embeddingService w"
  "embedRequests (handleCommand c w) = embedRequests w"
  by (cases c; simp)+

lemma handleAll_fields [simp]:
  "filesProcessed (handleAll cs w) = filesProcessed w"
  "filesFailed (handleAll cs w) = filesFailed w"
  "snapshots (handleAll cs w) = snapshots w"
  "embeddingBuffer (handleAll cs w) = embeddingBuffer w"
  "embeddingEnabled (handleAll cs w) = embeddingEnabled w"
  "embeddingService (handleAll cs w) = embeddingService w"
  "embedRequests (handleAll cs w) = embedRequests w"
  unfolding handleAll_def by (induction cs arbitrary: w; simp)+



lemma loopStep_fields [simp]:
  "running (loopStep e k path w) = running (handleAll (env_during e k) w)"
  "paused (loopStep e k path w) = paused (handleAll (env_during e k) w)"
  "snapshots (loopStep e k path w) = snapshots w"
  "filesProcessed (loopStep e k path w) + filesFailed (loopStep e k path w)
     = Suc (filesProcessed w + filesFailed w)"
proof -
  obtain w1 ok where pf: "processFile e path (handleAll (env_during e k) w) = (w1, ok)"
    by (cases "processFile e path (handleAll (env_during e k) w)")
  have f: "running w1 = running (handleAll (env_during e k) w)"
    "paused w1 = paused (handleAll (env_during e k) w)"
    "snapshots w1 = snapshots w"
    "filesProcessed w1 + filesFailed w1 = Suc (filesProcessed w + filesFailed w)"
    using processFile_fields[of e path "handleAll (env_during e k) w"] by (simp_all add: pf)
  show "running (loopStep e k path w) = running (handleAll (env_during e k) w)"
    "paused (loopStep e k path w) = paused (handleAll (env_during e k) w)"
    "snapshots (loopStep e k path w) = snapshots w"
    "filesProcessed (loopStep e k path w) + filesFailed (loopStep e k path w)
     = Suc (filesProcessed w + filesFailed w)"
    using f by (simp_all add: loopStep_def pf Let_def)
qed

lemma statsCount_outbox_append:
  "outbox w' = outbox w @ ms \<Longrightarrow> statsCount w' = statsCount w + length (filter isStats ms)"
  by (simp add: statsCount_def)












section \<open>The claims\<close>

subsection \<open>C1: selection rules\<close>

text \<open>
  Claim C1. The test the walk applies to every entry selects a path exactly when the path
  matches at least one include pattern, or the include list is empty, and matches no
  exclude pattern; every path the walk yields passes that test; and a path that some
  exclude pattern matches is never selected and never yielded, whatever the include
  patterns.
\<close>

theorem exclude_wins:
  "(entrySelected regexTest sel p \<longleftrightarrow> isSelected regexTest p sel)
   \<and> (\<forall>q\<in>set (collectFiles regexTest readdir folder maxDepth depth sel). isSelected regexTest q sel)
   \<and> ((\<exists>rule\<in>set (sel_exclude sel). matchesGlob regexTest p rule) \<longrightarrow>
         \<not> isSelected regexTest p sel
         \<and> p \<notin> set (collectFiles regexTest readdir folder maxDepth depth sel))"
proof -
  have all: "\<forall>q\<in>set (collectFiles regexTest readdir folder maxDepth depth sel). isSelected regexTest q sel"
    using collectFiles_selected entrySelected_iff by blast
  have "\<not> isSelected regexTest p sel" if "\<exists>rule\<in>set (sel_exclude sel). matchesGlob regexTest p rule"
    using that by (simp add: isSelected_def)
  then show ?thesis using all entrySelected_iff by blast
qed

theorem exclude_wins_witness:
  "collectFiles (\<lambda>src s. False)
     (\<lambda>p. if p = ''/data/'' then Some [(''a.txt'', IsFile), (''tmp'', IsDirectory), (''c.bin'', IsFile)]
          else if p = ''/data/tmp'' then Some [(''b.txt'', IsFile)] else None)
     ''/data/'' 10 0 \<lparr>sel_include = [''/data''], sel_exclude = [''/data/tmp'']\<rparr> = [''/data/a.txt'']
   \<and> isSelected (\<lambda>src s. False) ''/data/a.txt'' \<lparr>sel_include = [''/data''], sel_exclude = [''/data/tmp'']\<rparr>
   \<and> matchesGlob (\<lambda>src s. False) ''/data/tmp/b.txt'' ''/data/tmp''
   \<and> matchesGlob (\<lambda>src s. False) ''/data/tmp/b.txt'' ''/data''
   \<and> \<not> isSelected (\<lambda>src s. False) ''/data/tmp/b.txt'' \<lparr>sel_include = [''/data''], sel_exclude = [''/data/tmp'']\<rparr>"
proof -
  let ?fs = "\<lambda>p. if p = ''/data/'' then Some [(''a.txt'', IsFile), (''tmp'', IsDirectory), (''c.bin'', IsFile)]
          else if p = ''/data/tmp'' then Some [(''b.txt'', IsFile)] else None"
  let ?sel = "\<lparr>sel_include = [''/data''], sel_exclude = [''/data/tmp'']\<rparr>"
  have walk: "collectFiles (\<lambda>src s. False) ?fs ''/data/'' 10 0 ?sel = [''/data/a.txt'']"
    by code_simp
  have m: "matchesGlob (\<lambda>src s. False) ''/data/tmp/b.txt'' ''/data/tmp''"
    "matchesGlob (\<lambda>src s. False) ''/data/tmp/b.txt'' ''/data''"
    by code_simp+
  have a: "isSelected (\<lambda>src s. False) ''/data/a.txt'' ?sel"
    using exclude_wins[of "\<lambda>src s. False" ?sel "''/data/a.txt''" ?fs "''/data/''" 10 0] walk
    by simp
  have b: "\<not> isSelected (\<lambda>src s. False) ''/data/tmp/b.txt'' ?sel"
    using exclude_wins[of "\<lambda>src s. False" ?sel "''/data/tmp/b.txt''" ?fs "''/data/''" 10 0] m
    by simp
  show ?thesis using walk m a b by simp
qed

subsection \<open>C2: the chunker\<close>

text \<open>
  Claim C2. For every text, the chunker of processFile yields exactly the trimmed windows
  of 500 characters taken every 400 characters, up to and including the first window
  that reaches the end of the text, keeping a window only when more than 50 characters
  remain after trimming; hence no chunk of the output has trimmed length 50 or less.
\<close>

theorem chunker_windows:
  "splitChunks txt = chunkSpec txt \<and> (\<forall>c\<in>set (splitChunks txt). 50 < length (trim c))"
  by (rule splitChunks_eq_spec)

theorem chunker_windows_witness:
  "map length (splitChunks (replicate 10 (CHR '' '') @ replicate 60 (CHR ''x''))) = [60]
   \<and> splitChunks (replicate 10 (CHR '' '') @ replicate 60 (CHR ''x''))
       = chunkSpec (replicate 10 (CHR '' '') @ replicate 60 (CHR ''x''))
   \<and> 50 < length (trim (hd (splitChunks (replicate 10 (CHR '' '') @ replicate 60 (CHR ''x'')))))"
proof -
  have len: "map length (splitChunks (replicate 10 (CHR '' '') @ replicate 60 (CHR ''x''))) = [60]"
    by code_simp
  then have "splitChunks (replicate 10 (CHR '' '') @ replicate 60 (CHR ''x'')) \<noteq> []"
    by auto
  then have "hd (splitChunks (replicate 10 (CHR '' '') @ replicate 60 (CHR ''x'')))
      \<in> set (splitChunks (replicate 10 (CHR '' '') @ replicate 60 (CHR ''x'')))"
    by simp
  then show ?thesis
    using len chunker_windows [of "replicate 10 (CHR '' '') @ replicate 60 (CHR ''x'')"] by blast
qed

subsection \<open>C3: hybrid scoring\<close>

text \<open>
  Claim C3 against the code. The index holds one chunk with text \<open>alpha\<close> and embedding
  \<open>[0, 1]\<close>; the query \<open>alpha\<close> embeds to \<open>[1, 0]\<close>, so the keyword score is 1 and the
  cosine is 0. In hybrid mode the handler of /api/search, in both servers, retrieves a
  keyword list and a semantic list separately and merges them: the chunk comes back with
  score 1. The function hybridSearch, which neither handler calls, scores it
  \<open>0.7 * 0 + 0.3 * 1 = 0.3\<close>.
\<close>

theorem hybrid_endpoint_merges_lists:
  "(case search_rag (\<lambda>q. Some [1, 0]) 0
      (Some [\<lparr>filePath = ''a.txt'', chunkIndex = 0, chunkText = Some ''alpha'', embedding = Some [0, 1]\<rparr>])
      \<lparr>body_query = Some ''alpha'', body_mode = Some ''hybrid'', body_topK = None, body_minScore = None\<rparr>
    of Inr r \<Rightarrow> map hit_score (resp_chunks r) | Inl e \<Rightarrow> []) = [Fin 1]
   \<and> map score (hybridSearch keywordScore
      (Some [\<lparr>filePath = ''a.txt'', chunkIndex = 0, chunkText = Some ''alpha'', embedding = Some [0, 1]\<rparr>])
      (Some [1, 0]) ''alpha'' 20 0.3) = [Fin 0.3]"
  by (simp add: search_rag_def search_def hybrid_endpoint_1 hybridSearch_1)

subsection \<open>C4: keyword score\<close>

text \<open>
  Claim C4 against the code. For the query \<open>alpha beta\<close> and a chunk that contains
  \<open>alpha\<close> but not \<open>beta\<close>, keywordScore of the rag backend returns one half, as
  claimed; the copy in the indexer backend splits the query on a backslash followed by
  letters s, keeps \<open>alpha beta\<close> as a single term and returns 0.
\<close>

theorem keywordScore_indexer_single_term:
  "keywordScore_indexer ''alpha gamma'' ''alpha beta'' = Fin 0
   \<and> keywordScore ''alpha gamma'' ''alpha beta'' = Fin (1 / 2)"
  by (simp add: kwi_zero kw_half)

subsection \<open>C5: stopping a run\<close>




subsection \<open>C6: the embedding process never reports ready\<close>



subsection \<open>C7: filtering and truncation\<close>




subsection \<open>C8: repeating a search\<close>



subsection \<open>C9: progress snapshots\<close>



subsection \<open>C10: cosine similarity\<close>




end
